theory Spec2Isabelle
  imports Main "HOL-Library.Sublist"
begin

section \<open>Python strings and the Unicode tables\<close>

text \<open>
  A Python \<open>str\<close> is a sequence of Unicode code points, so it is modelled as a list of
  natural numbers. \<open>S\<close> turns an ASCII literal of the source into such a list.
\<close>

type_synonym str = "nat list"

definition S :: "string \<Rightarrow> str" where
  "S cs = map of_char cs"

text \<open>
  The character classes of \<open>re\<close> and \<open>str.strip\<close> are fixed for ASCII. Beyond ASCII they
  are read from the Unicode database of the interpreter, which is not part of the
  repository: it is a parameter of the model.
\<close>

record unicode_db =
  uc_alnum :: "nat \<Rightarrow> bool"
  uc_decimal :: "nat \<Rightarrow> bool"
  uc_space :: "nat \<Rightarrow> bool"

definition is_word :: "unicode_db \<Rightarrow> nat \<Rightarrow> bool" where
  "is_word db c =
     (if c < 128
      then (48 \<le> c \<and> c \<le> 57) \<or> (65 \<le> c \<and> c \<le> 90) \<or> (97 \<le> c \<and> c \<le> 122) \<or> c = 95
      else uc_alnum db c)"

definition is_digit :: "unicode_db \<Rightarrow> nat \<Rightarrow> bool" where
  "is_digit db c = (if c < 128 then 48 \<le> c \<and> c \<le> 57 else uc_decimal db c)"

definition is_space :: "unicode_db \<Rightarrow> nat \<Rightarrow> bool" where
  "is_space db c =
     (if c < 128 then (9 \<le> c \<and> c \<le> 13) \<or> (28 \<le> c \<and> c \<le> 32) else uc_space db c)"

definition strip :: "unicode_db \<Rightarrow> str \<Rightarrow> str" where
  "strip db s = rev (dropWhile (is_space db) (rev (dropWhile (is_space db) s)))"

fun split_on :: "nat \<Rightarrow> str \<Rightarrow> str list" where
  "split_on c [] = [[]]"
| "split_on c (x # xs) =
     (if x = c then [] # split_on c xs
      else (case split_on c xs of [] \<Rightarrow> [[x]] | l # ls \<Rightarrow> (x # l) # ls))"

fun contains :: "str \<Rightarrow> str \<Rightarrow> bool" where
  "contains needle [] = (needle = [])"
| "contains needle (x # xs) = (prefix needle (x # xs) \<or> contains needle xs)"

section \<open>Title sanitisation and the output file name\<close>

text \<open>\<open>re.sub(r'[^\w\-_\.]', '_', title)[:50]\<close>\<close>

definition keeps :: "unicode_db \<Rightarrow> nat \<Rightarrow> bool" where
  "keeps db c = (is_word db c \<or> c = 45 \<or> c = 95 \<or> c = 46)"

definition safe_title :: "unicode_db \<Rightarrow> str \<Rightarrow> str" where
  "safe_title db title = take 50 (map (\<lambda>c. if keeps db c then c else 95) title)"

text \<open>
  \<open>datetime.now()\<close> and \<open>strftime("%m-%d-%y_%H:%M")\<close>. Every field of a Python
  \<open>datetime\<close> that is printed with two digits is below 100 (the year is printed modulo
  100), so one two-digit printer serves all of them.
\<close>

record datetime =
  year :: nat
  month :: nat
  day :: nat
  hour :: nat
  minute :: nat
  second :: nat

definition two_digits :: "nat \<Rightarrow> str" where
  "two_digits n = [48 + n div 10, 48 + n mod 10]"

definition strftime :: "datetime \<Rightarrow> str" where
  "strftime now =
     two_digits (month now) @ S ''-'' @ two_digits (day now) @ S ''-'' @
     two_digits (year now mod 100) @ S ''_'' @ two_digits (hour now) @ S '':'' @
     two_digits (minute now)"

text \<open>\<open>f"{safe_title}-{timestamp}-x220.mp4"\<close>\<close>

definition output_filename :: "str \<Rightarrow> str \<Rightarrow> str" where
  "output_filename st timestamp = st @ S ''-'' @ timestamp @ S ''-x220.mp4''"

text \<open>A Unicode database in which no code point beyond ASCII is in any class.\<close>

definition ascii_db :: unicode_db where
  "ascii_db = \<lparr>uc_alnum = (\<lambda>c. False), uc_decimal = (\<lambda>c. False), uc_space = (\<lambda>c. False)\<rparr>"

section \<open>External calls, exceptions and the trace of a run\<close>

text \<open>
  The program talks to the clock, the file system, three external tools, the IRC
  connection and the logger. Every such call is recorded, in order, in a trace. What the
  world answers to the calls of one job is the record \<open>world\<close>; an answer is a value or
  a raised exception. Exceptions are instances of Python's \<open>Exception\<close>, carrying their
  text: nothing the worker thread calls raises \<open>KeyboardInterrupt\<close> or \<open>SystemExit\<close>.
\<close>

datatype exn = Exception (exn_str: str)

datatype level = INFO | WARNING | ERROR

datatype site = Get_info | Download | List_encoders | Encode_nvenc | Encode_cpu

datatype call =
    Datetime_now
  | Mkdir str
  | Run site "str list" "str option"
  | Glob str str
  | Unlink str
  | Privmsg str str
  | Log level str

record completed =
  returncode :: int
  stdout :: str
  stderr :: str

record world =
  now_r :: datetime
  mkdir_r :: "exn option"
  info_r :: "exn + completed"
  download_r :: "exn + completed"
  listing_r :: "exn + str list"
  encoders_r :: "exn + completed"
  nvenc_r :: "exn + completed"
  cpu_r :: "exn + completed"
  unlink_r :: "exn option"
  privmsg_r :: "exn option"

type_synonym 'a io = "call list \<times> (exn + 'a)"

definition ret :: "'a \<Rightarrow> 'a io" where
  "ret v = ([], Inr v)"

definition io_bind :: "'a io \<Rightarrow> ('a \<Rightarrow> 'b io) \<Rightarrow> 'b io" where
  "io_bind m k =
     (case m of
        (tr, Inl e) \<Rightarrow> (tr, Inl e)
      | (tr, Inr v) \<Rightarrow> (case k v of (tr', r) \<Rightarrow> (tr @ tr', r)))"

definition io_then :: "unit io \<Rightarrow> 'b io \<Rightarrow> 'b io" where
  "io_then m k = io_bind m (\<lambda>u. k)"

definition io_call :: "call \<Rightarrow> exn + 'a \<Rightarrow> 'a io" where
  "io_call c r = ([c], r)"

definition io_act :: "call \<Rightarrow> exn option \<Rightarrow> unit io" where
  "io_act c r = ([c], case r of None \<Rightarrow> Inr () | Some e \<Rightarrow> Inl e)"

definition io_log :: "level \<Rightarrow> str \<Rightarrow> unit io" where
  "io_log l msg = ([Log l msg], Inr ())"

text \<open>\<open>try: m except [Exception as e]: h e\<close>\<close>

definition io_try :: "'a io \<Rightarrow> (exn \<Rightarrow> 'a io) \<Rightarrow> 'a io" where
  "io_try m h =
     (case m of
        (tr, Inl e) \<Rightarrow> (case h e of (tr', r) \<Rightarrow> (tr @ tr', r))
      | (tr, Inr v) \<Rightarrow> (tr, Inr v))"

section \<open>The capability probe\<close>

definition check_nvenc_available :: "world \<Rightarrow> bool io" where
  "check_nvenc_available w =
     io_try
       (io_bind
          (io_call (Run List_encoders [S ''ffmpeg'', S ''-hide_banner'', S ''-encoders''] None)
             (encoders_r w))
          (\<lambda>result. ret (contains (S ''h264_nvenc'') (stdout result))))
       (\<lambda>e. ret False)"

section \<open>Download and encode\<close>

definition info_cmd :: "str \<Rightarrow> str list" where
  "info_cmd url =
     [S ''yt-dlp'', S ''--get-title'', S ''--get-filename'', S ''-o'', S ''%(title)s.%(ext)s'', url]"

definition download_cmd :: "str \<Rightarrow> str list" where
  "download_cmd url =
     [S ''yt-dlp'', S ''-f'', S ''best[height<=720]'', S ''-o'', S ''input_video.%(ext)s'', url]"

definition nvenc_cmd :: "str \<Rightarrow> str \<Rightarrow> str list" where
  "nvenc_cmd input_file output_path =
     [S ''ffmpeg'', S ''-i'', input_file,
      S ''-vf'', S ''scale=trunc(iw/2)*2:trunc(ih/2)*2,format=yuv420p'',
      S ''-c:v'', S ''h264_nvenc'', S ''-preset'', S ''p4'', S ''-tune'', S ''hq'',
      S ''-rc'', S ''vbr'', S ''-cq'', S ''18'', S ''-b:v'', S ''0'',
      S ''-profile:v'', S ''baseline'', S ''-level'', S ''3.1'',
      S ''-c:a'', S ''aac'', S ''-b:a'', S ''160k'',
      S ''-movflags'', S ''+faststart'',
      S ''-y'',
      output_path]"

definition cpu_cmd :: "str \<Rightarrow> str \<Rightarrow> str list" where
  "cpu_cmd input_file output_path =
     [S ''ffmpeg'', S ''-i'', input_file,
      S ''-vf'', S ''scale=trunc(iw/2)*2:trunc(ih/2)*2,format=yuv420p'',
      S ''-c:v'', S ''libx264'', S ''-preset'', S ''slow'', S ''-crf'', S ''18'',
      S ''-profile:v'', S ''baseline'', S ''-level'', S ''3.1'',
      S ''-c:a'', S ''aac'', S ''-b:a'', S ''160k'',
      S ''-movflags'', S ''+faststart'',
      S ''-y'',
      output_path]"

text \<open>
  \<open>list(temp_dir.glob("input_video.*"))\<close>: the entries of the directory, in the order
  the system lists them, whose name starts with \<open>input_video.\<close>, as paths.
\<close>

definition glob_input :: "str \<Rightarrow> exn + str list \<Rightarrow> exn + str list" where
  "glob_input temp_dir listing =
     (case listing of
        Inl e \<Rightarrow> Inl e
      | Inr names \<Rightarrow>
          Inr (map (\<lambda>n. temp_dir @ S ''/'' @ n) (filter (prefix (S ''input_video.'')) names)))"

text \<open>The clean-up after a successful encode: \<open>try: unlink; log except: pass\<close>.\<close>

definition cleanup :: "world \<Rightarrow> str \<Rightarrow> unit io" where
  "cleanup w input_file =
     io_try
       (io_then (io_act (Unlink input_file) (unlink_r w))
          (io_log INFO (S ''Cleaned up temporary files'')))
       (\<lambda>e. ret ())"

text \<open>
  Lines 179 to 240: the two encode attempts. An early \<open>return\<close> inside a block is the
  left summand of the block's value.
\<close>

definition encode_stage :: "world \<Rightarrow> str \<Rightarrow> str \<Rightarrow> (bool \<times> str option) io" where
  "encode_stage w input_file output_path =
     io_bind (check_nvenc_available w) (\<lambda>available.
     io_bind
       (if available then
          io_then (io_log INFO (S ''RTX 4060 detected! Using GPU encoding (NVENC)...''))
         (io_bind (io_call (Run Encode_nvenc (nvenc_cmd input_file output_path) None) (nvenc_r w))
            (\<lambda>result.
               if returncode result = 0
               then io_then (io_log INFO (S ''NVENC encoding completed successfully'')) (ret True)
               else io_then
                      (io_log WARNING (S ''NVENC encoding failed, falling back to CPU encoding...''))
                      (ret False)))
        else io_then (io_log INFO (S ''NVENC not available, using CPU encoding...'')) (ret False))
       (\<lambda>success.
     io_bind
       (if \<not> success then
          io_then (io_log INFO (S ''Using CPU encoding with x264...''))
         (io_bind (io_call (Run Encode_cpu (cpu_cmd input_file output_path) None) (cpu_r w))
            (\<lambda>result.
               if returncode result \<noteq> 0
               then io_then (io_log ERROR (S ''CPU encoding also failed''))
                      (ret (Inl (False, None)))
               else ret (Inr True)))
        else ret (Inr success))
       (\<lambda>r. case r of
          Inl early \<Rightarrow> ret early
        | Inr success' \<Rightarrow>
            if \<not> success'
            then io_then (io_log ERROR (S ''All encoding methods failed'')) (ret (False, None))
            else io_then (cleanup w input_file) (ret (True, Some output_path)))))"

text \<open>Lines 129 to 177: the time stamp, the title, the download and the input file.\<close>

definition title_of :: "unicode_db \<Rightarrow> str \<Rightarrow> str" where
  "title_of db out =
     (case split_on 10 (strip db out) of [] \<Rightarrow> S ''video'' | l # ls \<Rightarrow> l)"

definition output_path_of :: "str \<Rightarrow> str" where
  "output_path_of filename = S ''/app/output'' @ S ''/'' @ filename"

definition download_and_encode_body :: "unicode_db \<Rightarrow> world \<Rightarrow> str \<Rightarrow> (bool \<times> str option) io" where
  "download_and_encode_body db w url =
     io_bind (io_call Datetime_now (Inr (now_r w))) (\<lambda>now.
     let timestamp = strftime now; temp_dir = S ''/app/temp'' in
     io_then (io_act (Mkdir temp_dir) (mkdir_r w))
    (io_then (io_log INFO (S ''Getting video info for: '' @ url))
    (io_bind (io_call (Run Get_info (info_cmd url) (Some temp_dir)) (info_r w)) (\<lambda>result.
     if returncode result \<noteq> 0
     then io_then (io_log ERROR (S ''Failed to get video info: '' @ stderr result))
            (ret (False, None))
     else
       let title = title_of db (stdout result); st = safe_title db title in
       io_then (io_log INFO (S ''Downloading video: '' @ title))
      (io_bind (io_call (Run Download (download_cmd url) (Some temp_dir)) (download_r w))
         (\<lambda>result.
       if returncode result \<noteq> 0
       then io_then (io_log ERROR (S ''Failed to download video'')) (ret (False, None))
       else
         io_bind
           (io_call (Glob temp_dir (S ''input_video.*'')) (glob_input temp_dir (listing_r w)))
           (\<lambda>input_files.
         case input_files of
           [] \<Rightarrow>
             io_then (io_log ERROR (S ''No input file found after download''))
               (ret (False, None))
         | input_file # rest \<Rightarrow>
             encode_stage w input_file (output_path_of (output_filename st timestamp)))))))))"

definition download_and_encode :: "unicode_db \<Rightarrow> world \<Rightarrow> str \<Rightarrow> (bool \<times> str option) io" where
  "download_and_encode db w url =
     io_try (download_and_encode_body db w url)
       (\<lambda>e. io_then (io_log ERROR (S ''Exception in download_and_encode: '' @ exn_str e))
              (ret (False, None)))"

section \<open>The worker and its queue\<close>

text \<open>
  \<open>queue.Queue()\<close> of the standard library, as the program uses it: \<open>put\<close> and \<open>get\<close>
  with their default arguments (blocking, no timeout) and \<open>task_done\<close>. A caller that
  would block gets \<open>None\<close>: it makes no step until the queue has changed.
\<close>

type_synonym job = "str \<times> str"

record py_queue =
  maxsize :: int
  items :: "job list"
  unfinished_tasks :: int

definition Queue :: "int \<Rightarrow> py_queue" where
  "Queue n = \<lparr>maxsize = n, items = [], unfinished_tasks = 0\<rparr>"

definition put :: "job \<Rightarrow> py_queue \<Rightarrow> py_queue option" where
  "put item q =
     (if 0 < maxsize q \<and> maxsize q \<le> int (length (items q)) then None
      else Some (q\<lparr>items := items q @ [item], unfinished_tasks := unfinished_tasks q + 1\<rparr>))"

definition get :: "py_queue \<Rightarrow> (job \<times> py_queue) option" where
  "get q = (case items q of [] \<Rightarrow> None | item # rest \<Rightarrow> Some (item, q\<lparr>items := rest\<rparr>))"

definition task_done :: "py_queue \<Rightarrow> exn + py_queue" where
  "task_done q =
     (let unfinished = unfinished_tasks q - 1 in
      if unfinished < 0 then Inl (Exception (S ''task_done() called too many times''))
      else Inr (q\<lparr>unfinished_tasks := unfinished\<rparr>))"

text \<open>\<open>os.path.basename\<close>: what follows the last slash.\<close>

definition basename :: "str \<Rightarrow> str" where
  "basename p = rev (takeWhile (\<lambda>c. c \<noteq> 47) (rev p))"

definition ready_message :: "str \<Rightarrow> str \<Rightarrow> str" where
  "ready_message output_file requester =
     [9989] @ S '' Video ready: '' @ (S ''http://10.0.0.2:8084/'' @ basename output_file) @
     S '' (requested by '' @ requester @ S '')''"

definition failed_message :: "str \<Rightarrow> str \<Rightarrow> str" where
  "failed_message url requester =
     [10060] @ S '' Failed to process video: '' @ url @ S '' (requested by '' @ requester @ S '')''"

text \<open>
  Lines 95 to 112: what one turn of the loop does with the job it took from the queue,
  inside \<open>try ... except Exception\<close>.
\<close>

definition process_job :: "unicode_db \<Rightarrow> str \<Rightarrow> world \<Rightarrow> job \<Rightarrow> unit io" where
  "process_job db channel w j =
     (case j of (url, requester) \<Rightarrow>
        io_try
          (io_then (io_log INFO (S ''Processing video: '' @ url @ S '' requested by '' @ requester))
          (io_bind (download_and_encode db w url) (\<lambda>(success, output_file).
             case (if success then output_file else None) of
               Some path \<Rightarrow>
                 if path \<noteq> [] then
                   io_then (io_act (Privmsg channel (ready_message path requester)) (privmsg_r w))
                     (io_log INFO (S ''Video processing completed: '' @ path))
                 else
                   io_then (io_act (Privmsg channel (failed_message url requester)) (privmsg_r w))
                     (io_log ERROR (S ''Video processing failed for: '' @ url))
             | None \<Rightarrow>
                 io_then (io_act (Privmsg channel (failed_message url requester)) (privmsg_r w))
                   (io_log ERROR (S ''Video processing failed for: '' @ url)))))
          (\<lambda>e. io_log ERROR (S ''Error in video processing: '' @ exn_str e)))"

text \<open>
  The worker thread is blocked in \<open>get\<close> or at work on a job, or it has ended with an
  exception that left the loop. The ingestion side puts jobs while the worker runs, so the
  bot moves by three kinds of events: a \<open>put\<close> of \<open>on_pubmsg\<close> or \<open>on_privmsg\<close>, the
  worker's \<open>get\<close> returning, and the worker finishing its job (the rest of the \<open>try\<close>,
  then \<open>finally: task_done()\<close>) in a given world.
\<close>

datatype worker = Waiting | Processing job | Terminated exn

record bot =
  processing_queue :: py_queue
  worker_thread :: worker
  calls :: "call list"

datatype event = Put job | Get | Finish world

definition bot_init :: bot where
  "bot_init = \<lparr>processing_queue = Queue 0, worker_thread = Waiting, calls = []\<rparr>"

definition finish_job :: "unicode_db \<Rightarrow> str \<Rightarrow> world \<Rightarrow> job \<Rightarrow> bot \<Rightarrow> bot" where
  "finish_job db channel w j b =
     (case process_job db channel w j of (tr, r) \<Rightarrow>
        (case task_done (processing_queue b) of
           Inl e \<Rightarrow> b\<lparr>worker_thread := Terminated e, calls := calls b @ tr\<rparr>
         | Inr q \<Rightarrow>
             b\<lparr>processing_queue := q,
               worker_thread := (case r of Inl e \<Rightarrow> Terminated e | Inr u \<Rightarrow> Waiting),
               calls := calls b @ tr\<rparr>))"

definition step :: "unicode_db \<Rightarrow> str \<Rightarrow> bot \<Rightarrow> event \<Rightarrow> bot" where
  "step db channel b ev =
     (case ev of
        Put j \<Rightarrow>
          (case put j (processing_queue b) of
             None \<Rightarrow> b
           | Some q \<Rightarrow> b\<lparr>processing_queue := q\<rparr>)
      | Get \<Rightarrow>
          (case worker_thread b of
             Waiting \<Rightarrow>
               (case get (processing_queue b) of
                  None \<Rightarrow> b
                | Some (j, q) \<Rightarrow> b\<lparr>processing_queue := q, worker_thread := Processing j\<rparr>)
           | Processing j \<Rightarrow> b
           | Terminated e \<Rightarrow> b)
      | Finish w \<Rightarrow>
          (case worker_thread b of
             Waiting \<Rightarrow> b
           | Processing j \<Rightarrow> finish_job db channel w j b
           | Terminated e \<Rightarrow> b))"

definition process_videos :: "unicode_db \<Rightarrow> str \<Rightarrow> event list \<Rightarrow> bot \<Rightarrow> bot" where
  "process_videos db channel evs b = foldl (step db channel) b evs"

section \<open>The URL extractor\<close>

text \<open>
  The five patterns use literals, character classes, optional groups and one greedy
  repetition. \<open>rmatch r s\<close> lists what is left of \<open>s\<close> after each way \<open>r\<close> can match at
  its start, in the order a backtracking matcher tries them (greedy first).
\<close>

datatype re = Eps | Lit nat | Cls "nat \<Rightarrow> bool" | Seq re re | Opt re | Plus re

function rmatch :: "re \<Rightarrow> str \<Rightarrow> str list" where
  "rmatch Eps s = [s]"
| "rmatch (Lit c) [] = []"
| "rmatch (Lit c) (x # t) = (if x = c then [t] else [])"
| "rmatch (Cls p) [] = []"
| "rmatch (Cls p) (x # t) = (if p x then [t] else [])"
| "rmatch (Seq a b) s = concat (map (rmatch b) (rmatch a s))"
| "rmatch (Opt a) s = rmatch a s @ [s]"
| "rmatch (Plus a) s =
     concat (map (\<lambda>t. if length t < length s then rmatch (Plus a) t @ [t] else [t])
       (rmatch a s))"
  by pat_completeness auto
termination
  by (relation "measures [\<lambda>(r, s). size r, \<lambda>(r, s). length s]") auto

definition lits :: "str \<Rightarrow> re" where
  "lits s = foldr (\<lambda>c r. Seq (Lit c) r) s Eps"

definition seqs :: "re list \<Rightarrow> re" where
  "seqs rs = foldr Seq rs Eps"

text \<open>
  \<open>re.findall\<close> for a pattern without groups: the matched texts, found from left to
  right. After a match the search goes on where the match ended; after an empty match it
  must advance, so the next match at that place has to be non-empty.
\<close>

function scan :: "re \<Rightarrow> bool \<Rightarrow> str \<Rightarrow> str list" where
  "scan r must_advance s =
     (case filter (\<lambda>t. \<not> must_advance \<or> length t < length s) (rmatch r s) of
        [] \<Rightarrow> (case s of [] \<Rightarrow> [] | x # s' \<Rightarrow> scan r False s')
      | t # ts \<Rightarrow>
          if length t < length s then take (length s - length t) s # scan r False t
          else if must_advance then []
          else [] # scan r True s)"
  by pat_completeness auto
termination
  by (relation "measure (\<lambda>(r, m, s). 2 * length s + (if m then 0 else 1))") auto

definition findall :: "re \<Rightarrow> str \<Rightarrow> str list" where
  "findall r s = scan r False s"

definition url_patterns :: "unicode_db \<Rightarrow> re list" where
  "url_patterns db =
     [seqs [lits (S ''http''), Opt (Lit 115), lits (S ''://''), Opt (lits (S ''www.'')),
            lits (S ''youtube.com/watch?v=''), Plus (Cls (\<lambda>c. is_word db c \<or> c = 45))],
      seqs [lits (S ''http''), Opt (Lit 115), lits (S ''://''),
            lits (S ''youtu.be/''), Plus (Cls (\<lambda>c. is_word db c \<or> c = 45))],
      seqs [lits (S ''http''), Opt (Lit 115), lits (S ''://''), Opt (lits (S ''www.'')),
            lits (S ''vimeo.com/''), Plus (Cls (is_digit db))],
      seqs [lits (S ''http''), Opt (Lit 115), lits (S ''://''), Opt (lits (S ''www.'')),
            lits (S ''dailymotion.com/video/''), Plus (Cls (\<lambda>c. is_word db c \<or> c = 45))],
      seqs [lits (S ''http''), Opt (Lit 115), lits (S ''://''), Opt (lits (S ''www.'')),
            lits (S ''twitch.tv/videos/''), Plus (Cls (is_digit db))]]"

definition extract_video_urls :: "unicode_db \<Rightarrow> str \<Rightarrow> str list" where
  "extract_video_urls db message =
     foldl (\<lambda>urls pattern. urls @ findall pattern message) [] (url_patterns db)"

definition fullmatch :: "re \<Rightarrow> str \<Rightarrow> bool" where
  "fullmatch r s = ([] \<in> set (rmatch r s))"

section \<open>Notions used in the statements\<close>

definition exits_zero :: "exn + completed \<Rightarrow> bool" where
  "exits_zero r = (case r of Inl e \<Rightarrow> False | Inr c \<Rightarrow> returncode c = 0)"

definition exits_nonzero :: "exn + completed \<Rightarrow> bool" where
  "exits_nonzero r = (case r of Inl e \<Rightarrow> False | Inr c \<Rightarrow> returncode c \<noteq> 0)"

definition raises :: "exn + 'a \<Rightarrow> bool" where
  "raises r = (case r of Inl e \<Rightarrow> True | Inr v \<Rightarrow> False)"

text \<open>No entry of the working directory has a name of the form \<open>input_video.*\<close>.\<close>

definition no_input_file :: "world \<Rightarrow> bool" where
  "no_input_file w =
     (case listing_r w of
        Inl e \<Rightarrow> False
      | Inr names \<Rightarrow> filter (prefix (S ''input_video.'')) names = [])"

text \<open>The fetch stage went through: every call of it returned, and none of the three
  failure conditions holds.\<close>

definition fetch_ok :: "world \<Rightarrow> bool" where
  "fetch_ok w =
     (mkdir_r w = None \<and> exits_zero (info_r w) \<and> exits_zero (download_r w) \<and>
      \<not> raises (listing_r w) \<and> \<not> no_input_file w)"

text \<open>The probe reports the hardware encoder.\<close>

definition capable :: "world \<Rightarrow> bool" where
  "capable w =
     (case encoders_r w of
        Inl e \<Rightarrow> False
      | Inr r \<Rightarrow> contains (S ''h264_nvenc'') (stdout r))"

text \<open>The external commands of a trace, by call site, in the order they were invoked.\<close>

fun sites :: "call list \<Rightarrow> site list" where
  "sites [] = []"
| "sites (Run st argv cwd # cs) = st # sites cs"
| "sites (c # cs) = sites cs"

definition encoder_invoked :: "call list \<Rightarrow> bool" where
  "encoder_invoked tr = (Encode_nvenc \<in> set (sites tr) \<or> Encode_cpu \<in> set (sites tr))"

fun is_log :: "call \<Rightarrow> bool" where
  "is_log (Log l m) = True"
| "is_log c = False"

text \<open>A job's fetch stage failed: the job returns failure with no output file, and no encode
  command was invoked.\<close>

definition fetch_failed :: "(bool \<times> str option) io \<Rightarrow> bool" where
  "fetch_failed d = (snd d = Inr (False, None) \<and> \<not> encoder_invoked (fst d))"

text \<open>The title line the metadata probe printed, the input file the glob finds first and
  the output file name the job computes from them.\<close>

definition info_stdout :: "world \<Rightarrow> str" where
  "info_stdout w = (case info_r w of Inl e \<Rightarrow> [] | Inr c \<Rightarrow> stdout c)"

definition input_file_of :: "world \<Rightarrow> str" where
  "input_file_of w =
     (case listing_r w of
        Inl e \<Rightarrow> []
      | Inr names \<Rightarrow>
          (case filter (prefix (S ''input_video.'')) names of
             [] \<Rightarrow> []
           | n # ns \<Rightarrow> S ''/app/temp'' @ S ''/'' @ n))"

definition expected_filename :: "unicode_db \<Rightarrow> world \<Rightarrow> str" where
  "expected_filename db w =
     output_filename (safe_title db (title_of db (info_stdout w))) (strftime (now_r w))"

definition fetch_trace :: "unicode_db \<Rightarrow> world \<Rightarrow> str \<Rightarrow> call list" where
  "fetch_trace db w url =
     [Datetime_now, Mkdir (S ''/app/temp''), Log INFO (S ''Getting video info for: '' @ url),
      Run Get_info (info_cmd url) (Some (S ''/app/temp'')),
      Log INFO (S ''Downloading video: '' @ title_of db (info_stdout w)),
      Run Download (download_cmd url) (Some (S ''/app/temp'')),
      Glob (S ''/app/temp'') (S ''input_video.*'')]"

text \<open>The encode succeeded: on the hardware path, or on the software path after it.\<close>

definition encode_ok :: "world \<Rightarrow> bool" where
  "encode_ok w =
     (fetch_ok w \<and>
      ((capable w \<and> exits_zero (nvenc_r w)) \<or>
       ((\<not> capable w \<or> exits_nonzero (nvenc_r w)) \<and> exits_zero (cpu_r w))))"

text \<open>What a job does after it has called \<open>unlink\<close>, and whether it logs anything there.\<close>

fun after_unlink :: "call list \<Rightarrow> call list" where
  "after_unlink [] = []"
| "after_unlink (Unlink f # cs) = cs"
| "after_unlink (c # cs) = after_unlink cs"

definition deletion_failure_logged :: "call list \<Rightarrow> bool" where
  "deletion_failure_logged tr = list_ex is_log (after_unlink tr)"

text \<open>The time stamp at the resolution of the naming scheme: what \<open>strftime\<close> prints of it.\<close>

definition minute_stamp :: "datetime \<Rightarrow> nat \<times> nat \<times> nat \<times> nat \<times> nat" where
  "minute_stamp d = (month d, day d, year d mod 100, hour d, minute d)"

text \<open>Several \<open>put\<close>s in a row, and several \<open>get\<close>s in a row with what they returned.\<close>

fun put_all :: "job list \<Rightarrow> py_queue \<Rightarrow> py_queue option" where
  "put_all [] q = Some q"
| "put_all (j # js) q = (case put j q of None \<Rightarrow> None | Some q' \<Rightarrow> put_all js q')"

fun get_n :: "nat \<Rightarrow> py_queue \<Rightarrow> (job list \<times> py_queue) option" where
  "get_n 0 q = Some ([], q)"
| "get_n (Suc n) q =
     (case get q of
        None \<Rightarrow> None
      | Some (j, q') \<Rightarrow>
          (case get_n n q' of None \<Rightarrow> None | Some (js, q'') \<Rightarrow> Some (j # js, q'')))"

text \<open>What the bot relies on between two events: the queue is unbounded, its counter of
  unfinished tasks counts the queued jobs and the job at work, and the worker is alive.\<close>

definition in_flight :: "worker \<Rightarrow> int" where
  "in_flight wk = (case wk of Waiting \<Rightarrow> 0 | Processing j \<Rightarrow> 1 | Terminated e \<Rightarrow> 0)"

definition alive :: "worker \<Rightarrow> bool" where
  "alive wk = (case wk of Waiting \<Rightarrow> True | Processing j \<Rightarrow> True | Terminated e \<Rightarrow> False)"

definition bot_inv :: "bot \<Rightarrow> bool" where
  "bot_inv b =
     (maxsize (processing_queue b) = 0 \<and>
      unfinished_tasks (processing_queue b) =
        int (length (items (processing_queue b))) + in_flight (worker_thread b) \<and>
      alive (worker_thread b))"

section \<open>Sample worlds\<close>

definition exited :: "int \<Rightarrow> str \<Rightarrow> exn + completed" where
  "exited rc out = Inr \<lparr>returncode = rc, stdout = out, stderr = []\<rparr>"

text \<open>Everything works and the hardware encoder is listed.\<close>

definition world_gpu :: world where
  "world_gpu =
     \<lparr>now_r = \<lparr>year = 2024, month = 3, day = 5, hour = 14, minute = 30, second = 7\<rparr>,
      mkdir_r = None,
      info_r = exited 0 (S ''My Video!!'' @ [10] @ S ''My Video!!.mp4'' @ [10]),
      download_r = exited 0 [],
      listing_r = Inr [S ''notes.txt'', S ''input_video.mp4''],
      encoders_r = exited 0 (S '' V....D h264_nvenc NVIDIA NVENC H.264 encoder''),
      nvenc_r = exited 0 [],
      cpu_r = exited 0 [],
      unlink_r = None,
      privmsg_r = None\<rparr>"

text \<open>The hardware encode exits with status 1.\<close>

definition world_gpu_fails :: world where
  "world_gpu_fails = world_gpu\<lparr>nvenc_r := exited 1 []\<rparr>"

text \<open>The encoder listing cannot be started.\<close>

definition world_no_probe :: world where
  "world_no_probe = world_gpu\<lparr>encoders_r := Inl (Exception (S ''ffmpeg: not found''))\<rparr>"

text \<open>\<open>yt-dlp\<close> is not installed: starting the metadata probe raises.\<close>

definition world_no_ytdlp :: world where
  "world_no_ytdlp = world_gpu\<lparr>info_r := Inl (Exception (S ''yt-dlp: not found''))\<rparr>"

text \<open>The input file cannot be deleted.\<close>

definition world_unlink_fails :: world where
  "world_unlink_fails = world_gpu\<lparr>unlink_r := Some (Exception (S ''Permission denied''))\<rparr>"

text \<open>The same job started 45 seconds later, within the same minute.\<close>

definition world_later :: world where
  "world_later =
     world_gpu\<lparr>now_r := \<lparr>year = 2024, month = 3, day = 5, hour = 14, minute = 30, second = 52\<rparr>\<rparr>"

text \<open>The hardware encode cannot be started, and the IRC connection is down.\<close>

definition world_crash :: world where
  "world_crash =
     world_gpu\<lparr>nvenc_r := Inl (Exception (S ''ffmpeg: Exec format error'')),
               privmsg_r := Some (Exception (S ''Not connected''))\<rparr>"

definition job1 :: job where
  "job1 = (S ''https://youtu.be/abc-123'', S ''alice'')"

definition job2 :: job where
  "job2 = (S ''https://vimeo.com/4711'', S ''bob'')"

definition url0 :: str where
  "url0 = S ''https://youtu.be/abc-123''"

section \<open>Running the calls of a job\<close>

lemma io_bind_Inl [simp]: "io_bind (tr, Inl e) k = (tr, Inl e)"
  by (simp add: io_bind_def)

lemma io_bind_Inr [simp]: "io_bind (tr, Inr v) k = (tr @ fst (k v), snd (k v))"
  by (simp add: io_bind_def split: prod.splits)

lemma io_try_Inl [simp]: "io_try (tr, Inl e) h = (tr @ fst (h e), snd (h e))"
  by (simp add: io_try_def split: prod.splits)

lemma io_try_Inr [simp]: "io_try (tr, Inr v) h = (tr, Inr v)"
  by (simp add: io_try_def)

lemmas io_defs = ret_def io_then_def io_call_def io_act_def io_log_def

lemma sites_append [simp]: "sites (xs @ ys) = sites xs @ sites ys"
  by (induction xs rule: sites.induct) auto

lemma check_nvenc_eq:
  "check_nvenc_available w =
     ([Run List_encoders [S ''ffmpeg'', S ''-hide_banner'', S ''-encoders''] None],
      Inr (capable w))"
  by (cases "encoders_r w") (simp_all add: check_nvenc_available_def capable_def io_defs)

lemma cleanup_eq:
  "cleanup w f =
     (Unlink f # (if unlink_r w = None then [Log INFO (S ''Cleaned up temporary files'')] else []),
      Inr ())"
  by (cases "unlink_r w") (simp_all add: cleanup_def io_defs)

lemma encode_sites:
  "sites (fst (encode_stage w i p)) =
     [List_encoders] @ (if capable w then [Encode_nvenc] else []) @
     (if \<not> capable w \<or> exits_nonzero (nvenc_r w) then [Encode_cpu] else [])"
  by (cases "nvenc_r w"; cases "cpu_r w")
     (simp_all add: encode_stage_def check_nvenc_eq cleanup_eq io_defs exits_nonzero_def)

lemma encode_result:
  "snd (encode_stage w i p) =
     (if capable w \<and> raises (nvenc_r w) then Inl (projl (nvenc_r w))
      else if capable w \<and> exits_zero (nvenc_r w) then Inr (True, Some p)
      else if raises (cpu_r w) then Inl (projl (cpu_r w))
      else if exits_zero (cpu_r w) then Inr (True, Some p)
      else Inr (False, None))"
  by (cases "nvenc_r w"; cases "cpu_r w")
     (simp_all add: encode_stage_def check_nvenc_eq cleanup_eq io_defs exits_zero_def raises_def)

lemma body_fetch_ok:
  assumes "fetch_ok w"
  shows "download_and_encode_body db w url =
    (fetch_trace db w url @
       fst (encode_stage w (input_file_of w) (output_path_of (expected_filename db w))),
     snd (encode_stage w (input_file_of w) (output_path_of (expected_filename db w))))"
proof -
  from assms obtain info dl names where
    i: "info_r w = Inr info" "returncode info = 0" and
    d: "download_r w = Inr dl" "returncode dl = 0" and
    l: "listing_r w = Inr names" "filter (prefix (S ''input_video.'')) names \<noteq> []" and
    m: "mkdir_r w = None"
    by (auto simp: fetch_ok_def exits_zero_def raises_def no_input_file_def split: sum.splits)
  from l(2) obtain n ns where f: "filter (prefix (S ''input_video.'')) names = n # ns"
    by (cases "filter (prefix (S ''input_video.'')) names") auto
  show ?thesis
    by (simp add: download_and_encode_body_def io_defs i d l m f glob_input_def Let_def
        fetch_trace_def input_file_of_def expected_filename_def info_stdout_def)
qed

lemma body_fetch_fails:
  assumes "\<not> fetch_ok w"
  shows "\<not> encoder_invoked (fst (download_and_encode_body db w url))
     \<and> List_encoders \<notin> set (sites (fst (download_and_encode_body db w url)))
     \<and> (raises (snd (download_and_encode_body db w url))
          \<or> snd (download_and_encode_body db w url) = Inr (False, None))"
  using assms
  by (cases "mkdir_r w"; cases "info_r w"; cases "download_r w"; cases "listing_r w")
     (auto simp: download_and_encode_body_def io_defs glob_input_def Let_def fetch_ok_def
        exits_zero_def raises_def no_input_file_def encoder_invoked_def split: list.splits)

text \<open>The \<open>except Exception\<close> of \<open>download_and_encode\<close> adds a log line and no command.\<close>

lemma dae_sites:
  "sites (fst (download_and_encode db w url)) = sites (fst (download_and_encode_body db w url))"
  by (cases "download_and_encode_body db w url"; cases "snd (download_and_encode_body db w url)")
     (auto simp: download_and_encode_def io_defs)

lemma dae_result:
  "snd (download_and_encode db w url) =
     (case snd (download_and_encode_body db w url) of
        Inl e \<Rightarrow> Inr (False, None)
      | Inr r \<Rightarrow> Inr r)"
  by (cases "download_and_encode_body db w url"; cases "snd (download_and_encode_body db w url)")
     (auto simp: download_and_encode_def io_defs)

lemma fetch_trace_sites [simp]: "sites (fetch_trace db w url) = [Get_info, Download]"
  by (simp add: fetch_trace_def)

lemma dae_sites_ok:
  "fetch_ok w \<Longrightarrow>
   sites (fst (download_and_encode db w url)) =
     [Get_info, Download, List_encoders] @ (if capable w then [Encode_nvenc] else []) @
     (if \<not> capable w \<or> exits_nonzero (nvenc_r w) then [Encode_cpu] else [])"
  by (simp add: dae_sites body_fetch_ok encode_sites)

lemma dae_result_ok:
  "fetch_ok w \<Longrightarrow>
   snd (download_and_encode db w url) =
     (if capable w \<and> exits_zero (nvenc_r w)
      then Inr (True, Some (output_path_of (expected_filename db w)))
      else if (\<not> capable w \<or> exits_nonzero (nvenc_r w)) \<and> exits_zero (cpu_r w)
      then Inr (True, Some (output_path_of (expected_filename db w)))
      else Inr (False, None))"
  by (cases "nvenc_r w"; cases "cpu_r w")
     (auto simp: dae_result body_fetch_ok encode_result raises_def exits_zero_def
        exits_nonzero_def)

lemma dae_result_fails:
  "\<not> fetch_ok w \<Longrightarrow> snd (download_and_encode db w url) = Inr (False, None)"
  using body_fetch_fails [of w db url]
  by (auto simp: dae_result raises_def split: sum.splits)

lemma dae_sites_fails:
  "\<not> fetch_ok w \<Longrightarrow> set (sites (fst (download_and_encode db w url))) \<subseteq> {Get_info, Download}"
proof -
  assume "\<not> fetch_ok w"
  from body_fetch_fails [OF this, of db url]
  have "\<forall>x \<in> set (sites (fst (download_and_encode_body db w url))).
          x \<noteq> List_encoders \<and> x \<noteq> Encode_nvenc \<and> x \<noteq> Encode_cpu"
    by (auto simp: encoder_invoked_def)
  then show ?thesis
  proof (intro subsetI)
    fix x
    assume "x \<in> set (sites (fst (download_and_encode db w url)))"
    with \<open>\<forall>x \<in> set (sites (fst (download_and_encode_body db w url))).
          x \<noteq> List_encoders \<and> x \<noteq> Encode_nvenc \<and> x \<noteq> Encode_cpu\<close>
    show "x \<in> {Get_info, Download}"
      by (cases x) (auto simp: dae_sites)
  qed
qed

lemma sample_worlds [simp]:
  "fetch_ok world_gpu" "capable world_gpu" "exits_zero (nvenc_r world_gpu)"
  "fetch_ok world_gpu_fails" "capable world_gpu_fails" "exits_nonzero (nvenc_r world_gpu_fails)"
  "exits_zero (cpu_r world_gpu_fails)"
  "fetch_ok world_no_probe" "raises (encoders_r world_no_probe)" "\<not> capable world_no_probe"
  "exits_zero (cpu_r world_no_probe)"
  "\<not> fetch_ok world_no_ytdlp" "raises (info_r world_no_ytdlp)"
  "fetch_ok world_unlink_fails" "capable world_unlink_fails"
  "exits_zero (nvenc_r world_unlink_fails)"
  by (simp_all add: world_gpu_def world_gpu_fails_def world_no_probe_def world_no_ytdlp_def
      world_unlink_fails_def fetch_ok_def capable_def exits_zero_def exits_nonzero_def raises_def
      no_input_file_def exited_def S_def)

section \<open>The output file name\<close>

lemma two_digits_inj [simp]: "(two_digits a = two_digits b) = (a = b)"
proof
  assume "two_digits a = two_digits b"
  then have "a div 10 = b div 10" "a mod 10 = b mod 10"
    by (simp_all add: two_digits_def)
  then show "a = b" by (metis div_mult_mod_eq)
qed simp

lemma length_strftime [simp]: "length (strftime d) = 14"
  by (simp add: strftime_def two_digits_def S_def)

lemma two_digits_append [simp]:
  "(two_digits a @ xs = two_digits b @ ys) = (a = b \<and> xs = ys)"
proof -
  have "(two_digits a @ xs = two_digits b @ ys) = (two_digits a = two_digits b \<and> xs = ys)"
    by (rule append_eq_append_conv) (simp add: two_digits_def)
  then show ?thesis by simp
qed

lemma strftime_inj: "(strftime d1 = strftime d2) = (minute_stamp d1 = minute_stamp d2)"
proof -
  have "(two_digits (minute d1) = two_digits (minute d2)) = (minute d1 = minute d2)"
    by simp
  then show ?thesis
    by (simp add: strftime_def minute_stamp_def S_def)
qed

lemma output_filename_inj:
  "(output_filename st1 (strftime d1) = output_filename st2 (strftime d2)) =
     (st1 = st2 \<and> strftime d1 = strftime d2)"
proof -
  have "(st1 @ (S ''-'' @ strftime d1) = st2 @ (S ''-'' @ strftime d2)) =
        (st1 = st2 \<and> S ''-'' @ strftime d1 = S ''-'' @ strftime d2)"
    by (rule append_eq_append_conv) (simp add: S_def)
  then show ?thesis
    by (simp add: output_filename_def)
qed

lemma no_slash_safe_title: "47 \<notin> set (safe_title db t)"
proof -
  have "\<not> keeps db 47" by (simp add: keeps_def is_word_def)
  then have "47 \<notin> set (map (\<lambda>c. if keeps db c then c else 95) t)" by auto
  then show ?thesis unfolding safe_title_def by (meson in_set_takeD)
qed

lemma no_slash_strftime: "47 \<notin> set (strftime d)"
  by (simp add: strftime_def two_digits_def S_def)

lemma basename_output_path:
  "basename (output_path_of (output_filename (safe_title db t) (strftime d))) =
     output_filename (safe_title db t) (strftime d)"
proof -
  let ?f = "output_filename (safe_title db t) (strftime d)"
  have n: "47 \<notin> set ?f"
    using no_slash_safe_title [of db t] no_slash_strftime [of d]
    by (simp add: output_filename_def S_def)
  have "rev (S ''/app/output'' @ S ''/'' @ ?f) = rev ?f @ (47 # rev (S ''/app/output''))"
    by (simp add: S_def)
  moreover have "takeWhile (\<lambda>c. c \<noteq> 47) (rev ?f @ (47 # rev (S ''/app/output''))) =
      rev ?f @ takeWhile (\<lambda>c. c \<noteq> 47) (47 # rev (S ''/app/output''))"
    by (rule takeWhile_append2) (use n in auto)
  ultimately show ?thesis
    by (simp add: basename_def output_path_of_def)
qed

lemma dae_success:
  assumes "snd (download_and_encode db w url) = Inr (True, Some p)"
  shows "encode_ok w \<and> p = output_path_of (expected_filename db w)"
proof -
  have f: "fetch_ok w"
    using assms dae_result_fails [of w db url] by auto
  show ?thesis
    using assms dae_result_ok [OF f, of db url]
    by (auto simp: encode_ok_def f split: if_splits)
qed

lemma encode_trace_no_clock:
  "Datetime_now \<notin> set (fst (encode_stage w i p))"
  by (cases "nvenc_r w"; cases "cpu_r w")
     (simp_all add: encode_stage_def check_nvenc_eq cleanup_eq io_defs)

lemma dae_trace_ok:
  assumes "encode_ok w"
  shows "fst (download_and_encode db w url) =
           fetch_trace db w url @
           fst (encode_stage w (input_file_of w) (output_path_of (expected_filename db w)))"
proof -
  from assms have f: "fetch_ok w" by (simp add: encode_ok_def)
  have "\<not> raises (snd (encode_stage w (input_file_of w) (output_path_of (expected_filename db w))))"
    using assms
    by (auto simp: encode_result encode_ok_def raises_def exits_zero_def exits_nonzero_def
        split: sum.splits)
  then show ?thesis
    by (cases "snd (encode_stage w (input_file_of w) (output_path_of (expected_filename db w)))")
       (simp_all add: download_and_encode_def body_fetch_ok [OF f] raises_def)
qed

lemma world_gpu_result:
  "snd (download_and_encode ascii_db world_gpu url0) =
     Inr (True, Some (S ''/app/output/My_Video__-03-05-24_14:30-x220.mp4''))"
  apply (simp add: dae_result_ok)
  apply (simp add: output_path_of_def expected_filename_def output_filename_def safe_title_def title_of_def
    info_stdout_def world_gpu_def exited_def strip_def strftime_def two_digits_def
    keeps_def is_word_def is_space_def ascii_db_def S_def)
  done

section \<open>Clean-up and sample runs\<close>

lemma after_unlink_encode:
  "encode_ok w \<Longrightarrow>
   after_unlink (fst (encode_stage w i p)) =
     (if unlink_r w = None then [Log INFO (S ''Cleaned up temporary files'')] else [])"
  by (cases "nvenc_r w"; cases "cpu_r w")
     (auto simp: encode_stage_def check_nvenc_eq cleanup_eq io_defs encode_ok_def
        exits_zero_def exits_nonzero_def)

lemma unlink_in_encode:
  "encode_ok w \<Longrightarrow> Unlink i \<in> set (fst (encode_stage w i p))"
  by (cases "nvenc_r w"; cases "cpu_r w")
     (auto simp: encode_stage_def check_nvenc_eq cleanup_eq io_defs encode_ok_def
        exits_zero_def exits_nonzero_def)

lemma after_unlink_fetch [simp]:
  "after_unlink (fetch_trace db w url @ tr) = after_unlink tr"
  by (simp add: fetch_trace_def)

lemma dae_result_encode_ok:
  "encode_ok w \<Longrightarrow>
   snd (download_and_encode db w url) = Inr (True, Some (output_path_of (expected_filename db w)))"
  by (auto simp: encode_ok_def dae_result_ok)

lemma encode_ok_unlink_fails [simp]: "encode_ok world_unlink_fails"
  by (simp add: encode_ok_def)

lemma encode_ok_later [simp]: "encode_ok world_gpu" "encode_ok world_later"
  by (simp_all add: encode_ok_def world_later_def world_gpu_def fetch_ok_def capable_def
     exits_zero_def raises_def no_input_file_def exited_def S_def)

lemma world_later_result:
  "snd (download_and_encode ascii_db world_later url0) =
     Inr (True, Some (output_path_of (expected_filename ascii_db world_later)))"
  by (rule dae_result_encode_ok) simp

lemma world_gpu_result':
  "snd (download_and_encode ascii_db world_gpu url0) =
     Inr (True, Some (output_path_of (expected_filename ascii_db world_gpu)))"
  by (rule dae_result_encode_ok) simp

section \<open>The queue and the worker\<close>

lemma put_unbounded:
  "maxsize q = 0 \<Longrightarrow>
   put j q = Some (q\<lparr>items := items q @ [j], unfinished_tasks := unfinished_tasks q + 1\<rparr>)"
  by (simp add: put_def)

lemma put_all_unbounded:
  "maxsize q = 0 \<Longrightarrow>
   put_all js q =
     Some (q\<lparr>items := items q @ js, unfinished_tasks := unfinished_tasks q + int (length js)\<rparr>)"
proof (induction js arbitrary: q)
  case Nil
  then show ?case by simp
next
  case (Cons j js)
  then show ?case by (simp add: put_unbounded)
qed

lemma get_n_items:
  "items q = js @ rest \<Longrightarrow> get_n (length js) q = Some (js, q\<lparr>items := rest\<rparr>)"
proof (induction js arbitrary: q)
  case Nil
  then show ?case by simp
next
  case (Cons j js)
  then show ?case by (simp add: get_def)
qed

lemma io_try_snd: "snd (io_try m h) = (case snd m of Inl e \<Rightarrow> snd (h e) | Inr v \<Rightarrow> Inr v)"
  by (cases m; cases "snd m") (auto simp: io_try_def split: prod.splits)

lemma process_job_returns: "snd (process_job db channel w j) = Inr ()"
  by (cases j) (simp add: process_job_def io_try_snd io_log_def split: sum.splits)

lemma dae_raises:
  "raises (snd (download_and_encode_body db w url)) \<Longrightarrow>
   snd (download_and_encode db w url) = Inr (False, None)"
  by (auto simp: dae_result raises_def split: sum.splits)

lemma process_job_failed:
  assumes "snd (download_and_encode db w url) = Inr (False, None)"
  shows "fst (process_job db channel w (url, requester)) =
     [Log INFO (S ''Processing video: '' @ url @ S '' requested by '' @ requester)] @
     fst (download_and_encode db w url) @
     [Privmsg channel (failed_message url requester),
      Log ERROR (case privmsg_r w of
                   None \<Rightarrow> S ''Video processing failed for: '' @ url
                 | Some e \<Rightarrow> S ''Error in video processing: '' @ exn_str e)]"
  using assms
  by (cases "download_and_encode db w url"; cases "privmsg_r w")
     (simp_all add: process_job_def io_defs)

lemma bot_inv_init: "bot_inv bot_init"
  by (simp add: bot_inv_def bot_init_def Queue_def in_flight_def alive_def)

lemma finish_job_inv:
  assumes "bot_inv b" "worker_thread b = Processing j"
  shows "worker_thread (finish_job db channel w j b) = Waiting
       \<and> calls (finish_job db channel w j b) = calls b @ fst (process_job db channel w j)
       \<and> bot_inv (finish_job db channel w j b)"
proof -
  have u: "unfinished_tasks (processing_queue b) =
             int (length (items (processing_queue b))) + 1"
    using assms by (simp add: bot_inv_def in_flight_def)
  have t: "task_done (processing_queue b) =
      Inr ((processing_queue b)\<lparr>unfinished_tasks := int (length (items (processing_queue b)))\<rparr>)"
    by (simp add: task_done_def u)
  obtain tr where p: "process_job db channel w j = (tr, Inr ())"
    using process_job_returns [of db channel w j] by (cases "process_job db channel w j") auto
  show ?thesis
    using assms(1)
    by (simp add: finish_job_def p t bot_inv_def in_flight_def alive_def)
qed

lemma step_inv: "bot_inv b \<Longrightarrow> bot_inv (step db channel b ev)"
proof (cases ev)
  case (Put j)
  assume "bot_inv b"
  then show ?thesis
    by (auto simp: step_def Put put_def bot_inv_def)
next
  case Get
  assume "bot_inv b"
  then show ?thesis
    by (auto simp: step_def Get get_def bot_inv_def in_flight_def alive_def
        split: worker.splits list.splits)
next
  case (Finish w)
  assume "bot_inv b"
  then show ?thesis
    using finish_job_inv [of b _ db channel w]
    by (auto simp: step_def Finish split: worker.splits)
qed

lemma process_videos_inv: "bot_inv b \<Longrightarrow> bot_inv (process_videos db channel evs b)"
  unfolding process_videos_def
  by (induction evs arbitrary: b) (simp_all add: step_inv)

lemma step_finish:
  "bot_inv b \<Longrightarrow> worker_thread b = Processing j \<Longrightarrow>
   worker_thread (step db channel b (Finish w)) = Waiting
   \<and> calls (step db channel b (Finish w)) = calls b @ fst (process_job db channel w j)"
  using finish_job_inv [of b j db channel w] by (simp add: step_def)

lemma step_get:
  "worker_thread b = Waiting \<Longrightarrow> items (processing_queue b) = j # js \<Longrightarrow>
   worker_thread (step db channel b Get) = Processing j"
  by (simp add: step_def get_def)

lemma finish_job_eq:
  "finish_job db channel w j b =
     (case task_done (processing_queue b) of
        Inl e \<Rightarrow> b\<lparr>worker_thread := Terminated e,
                    calls := calls b @ fst (process_job db channel w j)\<rparr>
      | Inr q \<Rightarrow> b\<lparr>processing_queue := q, worker_thread := Waiting,
                    calls := calls b @ fst (process_job db channel w j)\<rparr>)"
  using process_job_returns [of db channel w j]
  by (cases "process_job db channel w j") (auto simp: finish_job_def split: sum.splits)

lemma world_crash_raises:
  "raises (snd (download_and_encode_body ascii_db world_crash (fst job1)))"
proof -
  have "fetch_ok world_crash" "capable world_crash" "raises (nvenc_r world_crash)"
    by (simp_all add: world_crash_def world_gpu_def fetch_ok_def capable_def exits_zero_def
        raises_def no_input_file_def exited_def S_def)
  then show ?thesis
    by (simp add: body_fetch_ok encode_result raises_def)
qed

lemma run_two:
  "process_videos db channel [Put job1, Get] bot_init =
     \<lparr>processing_queue = \<lparr>maxsize = 0, items = [], unfinished_tasks = 1\<rparr>,
      worker_thread = Processing job1, calls = []\<rparr>"
  by (simp add: process_videos_def step_def put_def get_def bot_init_def Queue_def)

lemma run_four:
  "process_videos db channel [Put job1, Get, Finish w, Put job2] bot_init =
     \<lparr>processing_queue = \<lparr>maxsize = 0, items = [job2], unfinished_tasks = 1\<rparr>,
      worker_thread = Waiting, calls = fst (process_job db channel w job1)\<rparr>"
  by (simp add: process_videos_def step_def put_def get_def bot_init_def Queue_def
      finish_job_eq task_done_def)

section \<open>What the matcher consumes\<close>

lemmas rmatch_Plus = rmatch.simps(8)

declare rmatch.simps(8) [simp del]

lemma rmatch_Plus_mem:
  "t \<in> set (rmatch (Plus a) s) =
     (\<exists>u \<in> set (rmatch a s). t = u \<or> (length u < length s \<and> t \<in> set (rmatch (Plus a) u)))"
  by (subst rmatch_Plus) auto

lemma rmatch_append:
  "t \<in> set (rmatch r s) \<Longrightarrow> t @ x \<in> set (rmatch r (s @ x))"
proof (induction r s arbitrary: t rule: rmatch.induct)
  case (1 s)
  then show ?case by simp
next
  case (2 c)
  then show ?case by simp
next
  case (3 c y s)
  then show ?case by (simp split: if_splits)
next
  case (4 p)
  then show ?case by simp
next
  case (5 p y s)
  then show ?case by (simp split: if_splits)
next
  case (6 a b s)
  from "6.prems" obtain u where u: "u \<in> set (rmatch a s)" and t: "t \<in> set (rmatch b u)"
    by auto
  from "6.IH"(1) [OF u] have "u @ x \<in> set (rmatch a (s @ x))" .
  moreover from "6.IH"(2) [OF u t] have "t @ x \<in> set (rmatch b (u @ x))" .
  ultimately show ?case by auto
next
  case (7 a s)
  then show ?case by auto
next
  case (8 a s)
  from "8.prems" obtain u where u: "u \<in> set (rmatch a s)"
    and t: "t = u \<or> (length u < length s \<and> t \<in> set (rmatch (Plus a) u))"
    using rmatch_Plus_mem [of t a s] by blast
  from "8.IH"(1) [OF u] have ux: "u @ x \<in> set (rmatch a (s @ x))" .
  from t have "t @ x = u @ x \<or>
      (length (u @ x) < length (s @ x) \<and> t @ x \<in> set (rmatch (Plus a) (u @ x)))"
  proof
    assume "t = u"
    then show ?thesis by simp
  next
    assume h: "length u < length s \<and> t \<in> set (rmatch (Plus a) u)"
    with "8.IH"(2) [OF u] have "t @ x \<in> set (rmatch (Plus a) (u @ x))" by blast
    with h show ?thesis by simp
  qed
  with ux show ?case
    using rmatch_Plus_mem [of "t @ x" a "s @ x"] by blast
qed

lemma rmatch_split:
  "t \<in> set (rmatch r s) \<Longrightarrow> \<exists>pre. s = pre @ t \<and> [] \<in> set (rmatch r pre)"
proof (induction r s arbitrary: t rule: rmatch.induct)
  case (1 s)
  then show ?case by simp
next
  case (2 c)
  then show ?case by simp
next
  case (3 c y s)
  then show ?case by (simp split: if_splits)
next
  case (4 p)
  then show ?case by simp
next
  case (5 p y s)
  then show ?case by (simp split: if_splits)
next
  case (6 a b s)
  from "6.prems" obtain u where u: "u \<in> set (rmatch a s)" and t: "t \<in> set (rmatch b u)"
    by auto
  from "6.IH"(1) [OF u] obtain p1 where p1: "s = p1 @ u" "[] \<in> set (rmatch a p1)" by blast
  from "6.IH"(2) [OF u t] obtain p2 where p2: "u = p2 @ t" "[] \<in> set (rmatch b p2)" by blast
  from rmatch_append [OF p1(2), of p2] have "p2 \<in> set (rmatch a (p1 @ p2))" by simp
  with p2(2) have "[] \<in> set (rmatch (Seq a b) (p1 @ p2))" by auto
  with p1(1) p2(1) show ?case by auto
next
  case (7 a s)
  then show ?case by auto
next
  case (8 a s)
  from "8.prems" obtain u where u: "u \<in> set (rmatch a s)"
    and t: "t = u \<or> (length u < length s \<and> t \<in> set (rmatch (Plus a) u))"
    using rmatch_Plus_mem [of t a s] by blast
  from "8.IH"(1) [OF u] obtain p1 where p1: "s = p1 @ u" "[] \<in> set (rmatch a p1)" by blast
  from p1(2) have e: "[] \<in> set (rmatch (Plus a) p1)"
    using rmatch_Plus_mem [of "[]" a p1] by blast
  from t show ?case
  proof
    assume "t = u"
    with p1 e show ?thesis by blast
  next
    assume h: "length u < length s \<and> t \<in> set (rmatch (Plus a) u)"
    with "8.IH"(2) [OF u] obtain p2 where
      p2: "u = p2 @ t" "[] \<in> set (rmatch (Plus a) p2)" by blast
    from rmatch_append [OF p1(2), of p2] have m: "p2 \<in> set (rmatch a (p1 @ p2))" by simp
    from h p1(1) have "p1 \<noteq> []" by auto
    then have "length p2 < length (p1 @ p2)" by simp
    with m p2(2) have "[] \<in> set (rmatch (Plus a) (p1 @ p2))"
      using rmatch_Plus_mem [of "[]" a "p1 @ p2"] by blast
    with p1(1) p2(1) show ?thesis by auto
  qed
qed

lemma rmatch_length: "t \<in> set (rmatch r s) \<Longrightarrow> length t \<le> length s"
  using rmatch_split [of t r s] by auto

lemma filter_hd_mem: "filter P xs = t # ts \<Longrightarrow> t \<in> set xs"
  by (metis filter_is_subset list.set_intros(1) subsetD)

declare scan.simps [simp del]

lemma scan_sound:
  "u \<in> set (scan r m s) \<Longrightarrow> fullmatch r u \<and> sublist u s"
proof (induction r m s arbitrary: u rule: scan.induct)
  case (1 r must_advance s)
  show ?case
  proof (cases "filter (\<lambda>t. \<not> must_advance \<or> length t < length s) (rmatch r s)")
    case Nil
    show ?thesis
    proof (cases s)
      case Nil
      with \<open>filter _ _ = []\<close> "1.prems" show ?thesis by (simp add: scan.simps)
    next
      case (Cons x s')
      with \<open>filter _ _ = []\<close> "1.prems" have "u \<in> set (scan r False s')"
        by (simp add: scan.simps)
      from "1.IH"(1) [OF \<open>filter _ _ = []\<close> Cons this]
      have "fullmatch r u" "sublist u s'" by simp_all
      then show ?thesis using Cons by (simp add: sublist_Cons_right)
    qed
  next
    case (Cons t ts)
    then have tm: "t \<in> set (rmatch r s)" by (rule filter_hd_mem)
    from rmatch_split [OF tm] obtain pre where pre: "s = pre @ t" "[] \<in> set (rmatch r pre)"
      by blast
    have tk: "take (length s - length t) s = pre" using pre(1) by simp
    show ?thesis
    proof (cases "length t < length s")
      case True
      with Cons "1.prems" have "u = pre \<or> u \<in> set (scan r False t)"
        by (simp add: tk scan.simps [of r must_advance s])
      then show ?thesis
      proof
        assume "u = pre"
        then show ?thesis using pre by (auto simp: fullmatch_def sublist_def intro: exI [of _ "[]"])
      next
        assume "u \<in> set (scan r False t)"
        from "1.IH"(2) [OF Cons True this] have "fullmatch r u" "sublist u t" by simp_all
        then show ?thesis using pre(1) by (auto simp: sublist_def) (metis append.assoc)
      qed
    next
      case nl: False
      with pre(1) have "pre = []" by auto
      show ?thesis
      proof (cases must_advance)
        case True
        have "t \<in> set (filter (\<lambda>t. \<not> must_advance \<or> length t < length s) (rmatch r s))"
          unfolding Cons by (rule list.set_intros)
        then have "\<not> must_advance \<or> length t < length s"
          unfolding set_filter by (rule CollectE) (erule conjunct2)
        with True nl show ?thesis by blast
      next
        case m: False
        with Cons nl "1.prems" have "u = [] \<or> u \<in> set (scan r True s)"
          by (simp add: scan.simps [of r False s])
        then show ?thesis
        proof
          assume "u = []"
          then show ?thesis using pre(2) \<open>pre = []\<close> by (simp add: fullmatch_def)
        next
          assume "u \<in> set (scan r True s)"
          from "1.IH"(3) [OF Cons nl m this] show ?thesis .
        qed
      qed
    qed
  qed
qed


lemma foldl_extend:
  "foldl (\<lambda>urls pattern. urls @ f pattern) acc ps = acc @ concat (map f ps)"
  by (induction ps arbitrary: acc) simp_all

lemma extract_concat:
  "extract_video_urls db message = concat (map (\<lambda>p. findall p message) (url_patterns db))"
  by (simp add: extract_video_urls_def foldl_extend)

lemma msg_twice:
  "extract_video_urls ascii_db
     (S ''see https://youtu.be/abc-123 or https://youtu.be/abc-123!'') =
   [S ''https://youtu.be/abc-123'', S ''https://youtu.be/abc-123'']"
  by code_simp

lemma msg_none: "extract_video_urls ascii_db (S ''no links here'') = []"
  by code_simp

section \<open>Title sanitisation on the example of the specification\<close>

text \<open>
  Claim C7, as stated: the title \<open>My Video!!\<close> at 03-05-24_14:30 gives the file name
  \<open>My_Video-03-05-24_14:30-x220.mp4\<close>. It does not: each of the two exclamation marks is
  replaced by an underscore of its own, none is removed.
\<close>

theorem C7_counterexample:
  "output_filename (safe_title ascii_db (S ''My Video!!''))
     (strftime \<lparr>year = 2024, month = 3, day = 5, hour = 14, minute = 30, second = 0\<rparr>)
   \<noteq> S ''My_Video-03-05-24_14:30-x220.mp4''"
  by (simp add: output_filename_def safe_title_def keeps_def is_word_def strftime_def
      two_digits_def S_def)

text \<open>
  Claim C7, amended: the title \<open>My Video!!\<close> at 03-05-24_14:30 gives the file name
  \<open>My_Video__-03-05-24_14:30-x220.mp4\<close>: the blank and both exclamation marks become
  underscores, and nothing is cut since the title has fewer than 50 characters. In
  general the sanitised title has the length of the title, capped at 50.
\<close>

theorem C7_my_video_filename:
  "output_filename (safe_title db (S ''My Video!!''))
     (strftime \<lparr>year = 2024, month = 3, day = 5, hour = 14, minute = 30, second = 0\<rparr>)
   = S ''My_Video__-03-05-24_14:30-x220.mp4''
   \<and> length (safe_title db title) = min 50 (length title)"
  by (simp add: output_filename_def safe_title_def keeps_def is_word_def strftime_def
      two_digits_def S_def min_def)

section \<open>The capability probe never raises\<close>

text \<open>
  Claim C10: \<open>check_nvenc_available\<close> always returns a boolean and lets no exception out.
  When the encoder listing itself raises, it returns \<open>False\<close>; a job whose fetch went
  through then runs the software encode, and whether the job succeeds is decided by that
  encode alone.
\<close>

theorem C10_probe_total:
  "snd (check_nvenc_available w) = Inr (capable w)
   \<and> (raises (encoders_r w) \<longrightarrow> snd (check_nvenc_available w) = Inr False)
   \<and> (fetch_ok w \<and> raises (encoders_r w) \<longrightarrow>
        sites (fst (download_and_encode db w url)) =
          [Get_info, Download, List_encoders, Encode_cpu]
        \<and> snd (download_and_encode db w url) =
            (if exits_zero (cpu_r w)
             then Inr (True, Some (output_path_of (expected_filename db w)))
             else Inr (False, None)))"
proof -
  have c: "raises (encoders_r w) \<Longrightarrow> \<not> capable w"
    by (auto simp: raises_def capable_def split: sum.splits)
  show ?thesis
    using c by (auto simp: check_nvenc_eq dae_sites_ok dae_result_ok)
qed

text \<open>The world in which \<open>ffmpeg -encoders\<close> cannot be started: the job is encoded in
  software and succeeds.\<close>

theorem C10_witness:
  "raises (encoders_r world_no_probe)
   \<and> snd (check_nvenc_available world_no_probe) = Inr False
   \<and> sites (fst (download_and_encode ascii_db world_no_probe url0)) =
       [Get_info, Download, List_encoders, Encode_cpu]
   \<and> snd (download_and_encode ascii_db world_no_probe url0) =
       Inr (True, Some (S ''/app/output/My_Video__-03-05-24_14:30-x220.mp4''))"
  using C10_probe_total [of world_no_probe ascii_db url0]
  apply simp
  apply (simp add: output_path_of_def expected_filename_def output_filename_def safe_title_def title_of_def
    info_stdout_def world_no_probe_def world_gpu_def exited_def strip_def strftime_def two_digits_def
    keeps_def is_word_def is_space_def ascii_db_def S_def)
  done

section \<open>The order of the encode attempts\<close>

text \<open>
  Claim C2: for every job whose fetch succeeded, the commands run one after the other in a
  fixed order. The capability probe runs first, in every such job. The hardware encode is
  invoked exactly when the probe reports the capability, and an exit status of zero makes
  the job succeed with no software encode. The software encode is invoked exactly when the
  probe reported no capability or the hardware encode exited non-zero; the job then
  succeeds if it exits with zero and fails otherwise.
\<close>

theorem C2_encode_order:
  assumes "fetch_ok w"
  shows "sites (fst (download_and_encode db w url)) =
           [Get_info, Download, List_encoders] @ (if capable w then [Encode_nvenc] else []) @
           (if \<not> capable w \<or> exits_nonzero (nvenc_r w) then [Encode_cpu] else [])
       \<and> (Encode_nvenc \<in> set (sites (fst (download_and_encode db w url)))) = capable w
       \<and> (capable w \<and> exits_zero (nvenc_r w) \<longrightarrow>
            snd (download_and_encode db w url) =
              Inr (True, Some (output_path_of (expected_filename db w)))
            \<and> Encode_cpu \<notin> set (sites (fst (download_and_encode db w url))))
       \<and> (Encode_cpu \<in> set (sites (fst (download_and_encode db w url)))) =
            (\<not> capable w \<or> exits_nonzero (nvenc_r w))
       \<and> (Encode_cpu \<in> set (sites (fst (download_and_encode db w url))) \<longrightarrow>
            snd (download_and_encode db w url) =
              (if exits_zero (cpu_r w)
               then Inr (True, Some (output_path_of (expected_filename db w)))
               else Inr (False, None)))"
proof -
  have x: "exits_zero (nvenc_r w) \<Longrightarrow> \<not> exits_nonzero (nvenc_r w)"
    by (auto simp: exits_zero_def exits_nonzero_def split: sum.splits)
  show ?thesis
    using x by (auto simp: dae_sites_ok [OF assms] dae_result_ok [OF assms])
qed

text \<open>The world in which the hardware encode exits with 1: probe, hardware encode and
  software encode run in this order and the job succeeds.\<close>

theorem C2_witness:
  "fetch_ok world_gpu_fails
   \<and> sites (fst (download_and_encode ascii_db world_gpu_fails url0)) =
       [Get_info, Download, List_encoders, Encode_nvenc, Encode_cpu]
   \<and> snd (download_and_encode ascii_db world_gpu_fails url0) =
       Inr (True, Some (output_path_of (expected_filename ascii_db world_gpu_fails)))"
  using C2_encode_order [of world_gpu_fails ascii_db url0] by simp

section \<open>When the fetch stage fails\<close>

text \<open>
  Claim C3, as stated: the fetch stage fails exactly when the metadata probe exits
  non-zero, the download exits non-zero, or no file named \<open>input_video.*\<close> is in the
  working directory. It also fails when a call of the stage raises: where \<open>yt-dlp\<close> is
  not installed the metadata probe has no exit status, the download would exit with zero
  and the input file is there, and the job fails without any encode command.
\<close>

theorem C3_counterexample:
  "fetch_failed (download_and_encode ascii_db world_no_ytdlp url0)
   \<and> \<not> (exits_nonzero (info_r world_no_ytdlp) \<or> exits_nonzero (download_r world_no_ytdlp)
        \<or> no_input_file world_no_ytdlp)"
proof -
  have "set (sites (fst (download_and_encode ascii_db world_no_ytdlp url0))) \<subseteq> {Get_info, Download}"
    by (rule dae_sites_fails) simp
  then have "\<not> encoder_invoked (fst (download_and_encode ascii_db world_no_ytdlp url0))"
    by (auto simp: encoder_invoked_def)
  moreover have "snd (download_and_encode ascii_db world_no_ytdlp url0) = Inr (False, None)"
    by (rule dae_result_fails) simp
  moreover have "\<not> (exits_nonzero (info_r world_no_ytdlp) \<or> exits_nonzero (download_r world_no_ytdlp)
        \<or> no_input_file world_no_ytdlp)"
    by (simp add: world_no_ytdlp_def world_gpu_def exits_nonzero_def exited_def no_input_file_def S_def)
  ultimately show ?thesis by (simp add: fetch_failed_def)
qed

text \<open>
  Claim C3, amended: the fetch stage fails (the job returns failure with no output file
  and no encode command is invoked) exactly when the metadata probe exits non-zero, or the
  download exits non-zero, or no file named \<open>input_video.*\<close> is in the working
  directory after the download, or one of the calls of the stage raises an exception:
  creating the working directory, starting the probe, starting the download, listing the
  directory. In every such case the job has invoked no command but the metadata probe
  and the download.
\<close>

theorem C3_fetch_fails_iff:
  "fetch_failed (download_and_encode db w url) =
     (exits_nonzero (info_r w) \<or> exits_nonzero (download_r w) \<or> no_input_file w \<or>
      mkdir_r w \<noteq> None \<or> raises (info_r w) \<or> raises (download_r w) \<or> raises (listing_r w))
   \<and> (fetch_failed (download_and_encode db w url) \<longrightarrow>
        set (sites (fst (download_and_encode db w url))) \<subseteq> {Get_info, Download})"
proof -
  have a: "fetch_ok w =
     (\<not> (exits_nonzero (info_r w) \<or> exits_nonzero (download_r w) \<or> no_input_file w \<or>
      mkdir_r w \<noteq> None \<or> raises (info_r w) \<or> raises (download_r w) \<or> raises (listing_r w)))"
    by (auto simp: fetch_ok_def exits_zero_def exits_nonzero_def raises_def split: sum.splits)
  have b: "fetch_failed (download_and_encode db w url) = (\<not> fetch_ok w)"
  proof (cases "fetch_ok w")
    case True
    then show ?thesis
      by (auto simp: fetch_failed_def encoder_invoked_def dae_sites_ok)
  next
    case False
    from dae_sites_fails [OF False, of db url] dae_result_fails [OF False, of db url]
    show ?thesis using False
      by (auto simp: fetch_failed_def encoder_invoked_def)
  qed
  show ?thesis
    using dae_sites_fails [of w db url] by (auto simp: b a)
qed

text \<open>Where \<open>yt-dlp\<close> is not installed, the fetch stage fails by the raised exception.\<close>

theorem C3_witness:
  "fetch_failed (download_and_encode ascii_db world_no_ytdlp url0)
   \<and> raises (info_r world_no_ytdlp)
   \<and> set (sites (fst (download_and_encode ascii_db world_no_ytdlp url0))) \<subseteq> {Get_info, Download}"
  using C3_fetch_fails_iff [of ascii_db world_no_ytdlp url0] by simp

section \<open>The name of the output file\<close>

text \<open>
  Claim C6: for every successful job the output file is
  \<open>{sanitized_title}-{MM-DD-YY_HH:MM}-x220.mp4\<close> in the output directory, where the
  time stamp is the answer to the one reading of the clock that the job makes, as its
  first call: before the metadata probe, the download and the encode.
\<close>

theorem C6_output_filename:
  assumes "snd (download_and_encode db w url) = Inr (True, Some p)"
  shows "p = S ''/app/output/'' @ safe_title db (title_of db (info_stdout w)) @ S ''-'' @
               strftime (now_r w) @ S ''-x220.mp4''
       \<and> basename p = output_filename (safe_title db (title_of db (info_stdout w)))
                         (strftime (now_r w))
       \<and> take 1 (fst (download_and_encode db w url)) = [Datetime_now]
       \<and> Datetime_now \<notin> set (tl (fst (download_and_encode db w url)))"
proof -
  from dae_success [OF assms] have ok: "encode_ok w"
    and p: "p = output_path_of (expected_filename db w)" by simp_all
  have "p = S ''/app/output/'' @ safe_title db (title_of db (info_stdout w)) @ S ''-'' @
               strftime (now_r w) @ S ''-x220.mp4''"
    by (simp add: p output_path_of_def expected_filename_def output_filename_def S_def)
  moreover have "basename p = output_filename (safe_title db (title_of db (info_stdout w)))
                         (strftime (now_r w))"
    by (simp add: p expected_filename_def basename_output_path)
  moreover have "take 1 (fst (download_and_encode db w url)) = [Datetime_now]"
    by (simp add: dae_trace_ok [OF ok] fetch_trace_def)
  moreover have "Datetime_now \<notin> set (tl (fst (download_and_encode db w url)))"
    using encode_trace_no_clock by (simp add: dae_trace_ok [OF ok] fetch_trace_def)
  ultimately show ?thesis by simp
qed

text \<open>The job of the world where everything works.\<close>

theorem C6_witness:
  "snd (download_and_encode ascii_db world_gpu url0) =
     Inr (True, Some (S ''/app/output/My_Video__-03-05-24_14:30-x220.mp4''))
   \<and> (S ''/app/output/My_Video__-03-05-24_14:30-x220.mp4'' =
         S ''/app/output/'' @ safe_title ascii_db (title_of ascii_db (info_stdout world_gpu)) @
         S ''-'' @ strftime (now_r world_gpu) @ S ''-x220.mp4''
       \<and> basename (S ''/app/output/My_Video__-03-05-24_14:30-x220.mp4'') =
         output_filename (safe_title ascii_db (title_of ascii_db (info_stdout world_gpu)))
           (strftime (now_r world_gpu))
       \<and> take 1 (fst (download_and_encode ascii_db world_gpu url0)) = [Datetime_now]
       \<and> Datetime_now \<notin> set (tl (fst (download_and_encode ascii_db world_gpu url0))))"
  using world_gpu_result C6_output_filename [OF world_gpu_result] by (rule conjI)

section \<open>Deleting the input file\<close>

text \<open>
  Claim C8, as stated: when the deletion of the input file fails after a successful
  encode, the failure is logged and the job still succeeds. The job does succeed, but
  nothing is logged: in the world where \<open>unlink\<close> raises, the job makes no call at all
  after it.
\<close>

theorem C8_counterexample:
  "encode_ok world_unlink_fails
   \<and> unlink_r world_unlink_fails = Some (Exception (S ''Permission denied''))
   \<and> \<not> deletion_failure_logged (fst (download_and_encode ascii_db world_unlink_fails url0))"
  by (simp add: deletion_failure_logged_def dae_trace_ok after_unlink_encode)
     (simp add: world_unlink_fails_def)

text \<open>
  Claim C8, amended: for every job that reaches a successful encode the input file is
  deleted best-effort. The job returns success with its output path whether \<open>unlink\<close>
  returns or raises; when it raises, the exception is swallowed without a log entry (the
  job makes no further call), and only when it returns, "Cleaned up temporary files" is
  logged.
\<close>

theorem C8_cleanup_best_effort:
  assumes "encode_ok w"
  shows "snd (download_and_encode db w url) =
           Inr (True, Some (output_path_of (expected_filename db w)))
       \<and> Unlink (input_file_of w) \<in> set (fst (download_and_encode db w url))
       \<and> (unlink_r w \<noteq> None \<longrightarrow> after_unlink (fst (download_and_encode db w url)) = [])
       \<and> (unlink_r w = None \<longrightarrow>
            after_unlink (fst (download_and_encode db w url)) =
              [Log INFO (S ''Cleaned up temporary files'')])"
  using assms
  by (simp add: dae_result_encode_ok dae_trace_ok after_unlink_encode unlink_in_encode)

text \<open>The world in which the input file cannot be deleted.\<close>

theorem C8_witness:
  "encode_ok world_unlink_fails
   \<and> snd (download_and_encode ascii_db world_unlink_fails url0) =
       Inr (True, Some (output_path_of (expected_filename ascii_db world_unlink_fails)))
   \<and> unlink_r world_unlink_fails \<noteq> None
   \<and> after_unlink (fst (download_and_encode ascii_db world_unlink_fails url0)) = []"
proof -
  have u: "unlink_r world_unlink_fails \<noteq> None"
    by (simp add: world_unlink_fails_def)
  show ?thesis
    using C8_cleanup_best_effort [of world_unlink_fails ascii_db url0] u by simp
qed

section \<open>Which jobs share an output file\<close>

text \<open>
  Claim C9: the output file of a successful job is determined by the sanitised title and
  the time stamp at the resolution of the naming scheme, and by nothing else. Two
  successful jobs have the same output file exactly when their sanitised titles are equal
  and their time stamps print the same; so their files differ only if the titles differ
  or the time stamps differ at minute resolution, and two jobs with the same sanitised
  title started in the same minute get the same file. Every output file ends in the
  fixed suffix \<open>-x220.mp4\<close>.
\<close>

theorem C9_filename_unique:
  assumes "snd (download_and_encode db w1 url1) = Inr (True, Some p1)"
      and "snd (download_and_encode db w2 url2) = Inr (True, Some p2)"
  shows "(p1 = p2) =
           (safe_title db (title_of db (info_stdout w1)) =
              safe_title db (title_of db (info_stdout w2))
            \<and> minute_stamp (now_r w1) = minute_stamp (now_r w2))
       \<and> (safe_title db (title_of db (info_stdout w1)) =
              safe_title db (title_of db (info_stdout w2))
            \<and> year (now_r w1) = year (now_r w2) \<and> month (now_r w1) = month (now_r w2)
            \<and> day (now_r w1) = day (now_r w2) \<and> hour (now_r w1) = hour (now_r w2)
            \<and> minute (now_r w1) = minute (now_r w2) \<longrightarrow> p1 = p2)
       \<and> suffix (S ''-x220.mp4'') p1"
proof -
  from dae_success [OF assms(1)] have p1: "p1 = output_path_of (expected_filename db w1)"
    by simp
  from dae_success [OF assms(2)] have p2: "p2 = output_path_of (expected_filename db w2)"
    by simp
  have e: "(p1 = p2) =
           (safe_title db (title_of db (info_stdout w1)) =
              safe_title db (title_of db (info_stdout w2))
            \<and> minute_stamp (now_r w1) = minute_stamp (now_r w2))"
    by (simp add: p1 p2 output_path_of_def expected_filename_def output_filename_inj
        strftime_inj)
  have s: "suffix (S ''-x220.mp4'') p1"
    by (simp add: p1 output_path_of_def expected_filename_def output_filename_def suffix_def)
  show ?thesis
    using e s by (auto simp: minute_stamp_def)
qed

text \<open>Two jobs for the same video, started 45 seconds apart within one minute, write the
  same file.\<close>

theorem C9_witness:
  "snd (download_and_encode ascii_db world_gpu url0) =
     Inr (True, Some (output_path_of (expected_filename ascii_db world_gpu)))
   \<and> snd (download_and_encode ascii_db world_later url0) =
     Inr (True, Some (output_path_of (expected_filename ascii_db world_later)))
   \<and> second (now_r world_gpu) \<noteq> second (now_r world_later)
   \<and> output_path_of (expected_filename ascii_db world_gpu) =
       output_path_of (expected_filename ascii_db world_later)"
proof -
  have a: "info_stdout world_later = info_stdout world_gpu"
    by (simp add: world_later_def info_stdout_def)
  have b: "minute_stamp (now_r world_later) = minute_stamp (now_r world_gpu)"
    by (simp add: world_later_def world_gpu_def minute_stamp_def)
  have c: "second (now_r world_gpu) \<noteq> second (now_r world_later)"
    by (simp add: world_later_def world_gpu_def)
  show ?thesis
    using C9_filename_unique [OF world_gpu_result' world_later_result] a b c
      world_gpu_result' world_later_result by simp
qed

section \<open>The job queue is first in, first out\<close>

text \<open>
  Claim C4: the job queue is FIFO. A \<open>put\<close> on the unbounded queue never blocks and
  always succeeds; a \<open>get\<close> blocks exactly while the queue is empty and otherwise
  returns the oldest job; one \<open>put\<close> followed by one \<open>get\<close> returns the same
  (url, requester) pair; and for every number of jobs, putting them and then getting as
  many returns them in the order of their arrival and leaves the queue empty.
\<close>

theorem C4_queue_fifo:
  "(\<exists>q'. put j (Queue 0) = Some q' \<and> (\<exists>q''. get q' = Some (j, q'')))
   \<and> (maxsize q = 0 \<longrightarrow> put j q \<noteq> None)
   \<and> ((get q = None) = (items q = []))
   \<and> (items q = j' # rest \<longrightarrow> get q = Some (j', q\<lparr>items := rest\<rparr>))
   \<and> (\<exists>q'. put_all js (Queue 0) = Some q'
          \<and> (\<exists>q''. get_n (length js) q' = Some (js, q'') \<and> items q'' = []))"
proof -
  have a: "put_all js (Queue 0) =
     Some ((Queue 0)\<lparr>items := js, unfinished_tasks := int (length js)\<rparr>)"
    using put_all_unbounded [of "Queue 0" js] by (simp add: Queue_def)
  have b: "get_n (length js) ((Queue 0)\<lparr>items := js, unfinished_tasks := int (length js)\<rparr>) =
     Some (js, (Queue 0)\<lparr>items := js, unfinished_tasks := int (length js)\<rparr>\<lparr>items := []\<rparr>)"
    by (rule get_n_items) simp
  show ?thesis
    using a b
    by (auto simp: put_def get_def Queue_def split: list.splits)
qed

text \<open>Two jobs put into the empty queue come out in the order they went in.\<close>

theorem C4_witness:
  "maxsize (Queue 0) = 0 \<and> put job1 (Queue 0) \<noteq> None
   \<and> items (the (put job1 (Queue 0))) = [job1]
   \<and> get (the (put job1 (Queue 0))) =
       Some (job1, \<lparr>maxsize = 0, items = [], unfinished_tasks = 1\<rparr>)
   \<and> put_all [job1, job2] (Queue 0) =
       Some \<lparr>maxsize = 0, items = [job1, job2], unfinished_tasks = 2\<rparr>
   \<and> get_n 2 \<lparr>maxsize = 0, items = [job1, job2], unfinished_tasks = 2\<rparr> =
       Some ([job1, job2], \<lparr>maxsize = 0, items = [], unfinished_tasks = 2\<rparr>)"
  using C4_queue_fifo [of job1 "Queue 0" job1 "[]" "[job1, job2]"]
  by (simp add: Queue_def put_def get_def numeral_2_eq_2)

section \<open>The worker outlives every job\<close>

text \<open>
  Claim C1: an exception raised while a job is fetched or encoded is caught inside
  \<open>download_and_encode\<close> and turned into the failed outcome, for which the worker sends
  the failure notification. No exception leaves the \<open>try\<close> of the loop, whatever the
  world answers, the notification included. Whatever jobs are put and however they end,
  the worker thread never terminates: while it works on a job it finishes and is back
  at the queue, and when it waits and a job is queued it takes the oldest one.
\<close>

theorem C1_worker_survives:
  "(raises (snd (download_and_encode_body db w url)) \<longrightarrow>
      snd (download_and_encode db w url) = Inr (False, None)
      \<and> Privmsg channel (failed_message url requester)
          \<in> set (fst (process_job db channel w (url, requester))))
   \<and> snd (process_job db channel w j) = Inr ()
   \<and> alive (worker_thread (process_videos db channel evs bot_init))
   \<and> (worker_thread (process_videos db channel evs1 bot_init) = Processing j1 \<longrightarrow>
        worker_thread (step db channel (process_videos db channel evs1 bot_init) (Finish w))
          = Waiting
        \<and> calls (step db channel (process_videos db channel evs1 bot_init) (Finish w))
          = calls (process_videos db channel evs1 bot_init) @ fst (process_job db channel w j1))
   \<and> (worker_thread (process_videos db channel evs2 bot_init) = Waiting
        \<and> items (processing_queue (process_videos db channel evs2 bot_init)) = j2 # js \<longrightarrow>
        worker_thread (step db channel (process_videos db channel evs2 bot_init) Get)
          = Processing j2)"
proof -
  have i: "\<And>evs. bot_inv (process_videos db channel evs bot_init)"
    by (rule process_videos_inv) (rule bot_inv_init)
  have a: "alive (worker_thread (process_videos db channel evs bot_init))"
    using i [of evs] by (simp add: bot_inv_def)
  have f: "raises (snd (download_and_encode_body db w url)) \<Longrightarrow>
      Privmsg channel (failed_message url requester)
          \<in> set (fst (process_job db channel w (url, requester)))"
    by (simp add: process_job_failed [OF dae_raises])
  show ?thesis
    using a f dae_raises [of db w url] process_job_returns [of db channel w j]
      step_finish [OF i [of evs1], of j1 db channel w] step_get [of _ j2 js db channel]
    by blast
qed

text \<open>
  A job whose hardware encode cannot be started, while the IRC connection is down: the job
  fails, the notification is attempted, and the worker then takes the next job.
\<close>

theorem C1_witness:
  "raises (snd (download_and_encode_body ascii_db world_crash (fst job1)))
   \<and> snd (download_and_encode ascii_db world_crash (fst job1)) = Inr (False, None)
   \<and> Privmsg (S ''#test'') (failed_message (fst job1) (snd job1))
        \<in> set (fst (process_job ascii_db (S ''#test'') world_crash job1))
   \<and> worker_thread (process_videos ascii_db (S ''#test'') [Put job1, Get] bot_init)
        = Processing job1
   \<and> worker_thread (process_videos ascii_db (S ''#test'')
          [Put job1, Get, Finish world_crash] bot_init) = Waiting
   \<and> worker_thread (process_videos ascii_db (S ''#test'')
          [Put job1, Get, Finish world_crash, Put job2] bot_init) = Waiting
   \<and> worker_thread (process_videos ascii_db (S ''#test'')
          [Put job1, Get, Finish world_crash, Put job2, Get] bot_init) = Processing job2"
proof -
  have a: "process_videos ascii_db (S ''#test'') [Put job1, Get, Finish world_crash] bot_init =
      step ascii_db (S ''#test'') (process_videos ascii_db (S ''#test'') [Put job1, Get] bot_init)
        (Finish world_crash)"
    by (simp add: process_videos_def)
  have b: "process_videos ascii_db (S ''#test'')
          [Put job1, Get, Finish world_crash, Put job2, Get] bot_init =
      step ascii_db (S ''#test'') (process_videos ascii_db (S ''#test'')
          [Put job1, Get, Finish world_crash, Put job2] bot_init) Get"
    by (simp add: process_videos_def)
  have c: "items (processing_queue (process_videos ascii_db (S ''#test'')
          [Put job1, Get, Finish world_crash, Put job2] bot_init)) = [job2]"
     "worker_thread (process_videos ascii_db (S ''#test'')
          [Put job1, Get, Finish world_crash, Put job2] bot_init) = Waiting"
     "worker_thread (process_videos ascii_db (S ''#test'') [Put job1, Get] bot_init)
        = Processing job1"
    by (simp_all add: run_four run_two)
  show ?thesis
    using C1_worker_survives [of ascii_db world_crash "fst job1" "S ''#test''" "snd job1"
        job1 "[]" "[Put job1, Get]" job1
        "[Put job1, Get, Finish world_crash, Put job2]" job2 "[]"]
      world_crash_raises c
    unfolding a b by simp
qed

section \<open>The URL extractor\<close>

text \<open>
  Claim C5: for every input text the extractor returns a list, and never an error. Each
  element of the list is a piece of the text that matches one of the configured patterns
  as a whole; a text of which no piece matches any pattern gives the empty list. Matches
  are not deduplicated: the result is the matches of the first pattern, then those of
  the second, and so on, one element for every occurrence.
\<close>

theorem C5_extractor:
  "(\<forall>u \<in> set (extract_video_urls db message).
       \<exists>p \<in> set (url_patterns db). fullmatch p u \<and> sublist u message)
   \<and> ((\<forall>p \<in> set (url_patterns db). \<forall>u. sublist u message \<longrightarrow> \<not> fullmatch p u) \<longrightarrow>
        extract_video_urls db message = [])
   \<and> extract_video_urls db message =
        concat (map (\<lambda>p. findall p message) (url_patterns db))
   \<and> length (extract_video_urls db message) =
        sum_list (map (\<lambda>p. length (findall p message)) (url_patterns db))"
proof -
  have a: "\<forall>u \<in> set (extract_video_urls db message).
       \<exists>p \<in> set (url_patterns db). fullmatch p u \<and> sublist u message"
    by (auto simp: extract_concat findall_def dest: scan_sound)
  have b: "(\<forall>p \<in> set (url_patterns db). \<forall>u. sublist u message \<longrightarrow> \<not> fullmatch p u) \<Longrightarrow>
        extract_video_urls db message = []"
  proof (rule ccontr)
    assume h: "\<forall>p \<in> set (url_patterns db). \<forall>u. sublist u message \<longrightarrow> \<not> fullmatch p u"
    assume "extract_video_urls db message \<noteq> []"
    then obtain u where "u \<in> set (extract_video_urls db message)"
      by (cases "extract_video_urls db message") auto
    with a h show False by blast
  qed
  have c: "length (extract_video_urls db message) =
        sum_list (map (\<lambda>p. length (findall p message)) (url_patterns db))"
    by (simp add: extract_concat length_concat comp_def)
  show ?thesis using a b c extract_concat by blast
qed

text \<open>A message that names the same video twice gives two jobs; a message without a link
  gives none.\<close>

theorem C5_witness:
  "extract_video_urls ascii_db
     (S ''see https://youtu.be/abc-123 or https://youtu.be/abc-123!'') =
   [S ''https://youtu.be/abc-123'', S ''https://youtu.be/abc-123'']
   \<and> (\<exists>p \<in> set (url_patterns ascii_db).
         fullmatch p (S ''https://youtu.be/abc-123'')
         \<and> sublist (S ''https://youtu.be/abc-123'')
             (S ''see https://youtu.be/abc-123 or https://youtu.be/abc-123!''))
   \<and> extract_video_urls ascii_db (S ''no links here'') = []"
  using C5_extractor [of ascii_db "S ''see https://youtu.be/abc-123 or https://youtu.be/abc-123!''"]
  by (simp add: msg_twice msg_none)

end
